theory Spec2Isabelle
  imports Complex_Main "HOL-Library.Sublist" "HOL-Library.AList"
begin

section \<open>The MultiPL-E task of lm\_eval/tasks/multiple.py\<close>

text \<open>
  A Python \<open>str\<close> is modelled as \<^typ>\<open>string\<close>, the list of its UTF-8 bytes. The stop
  words are ASCII, and no ASCII byte occurs inside a multi-byte UTF-8 sequence, so
  splitting at stop words is the same on code points and on bytes.
\<close>

subsection \<open>Exceptions\<close>

datatype error = KeyError | TypeError | AttributeError | IndexError

subsection \<open>The task object\<close>

definition LANGUAGES :: "string list" where
  "LANGUAGES = [''py'', ''bs'', ''cpp'', ''cs'', ''d'', ''go'', ''java'', ''js'', ''jl'',
     ''lua'', ''pl'', ''php'', ''r'', ''rkt'', ''rb'', ''rs'', ''scala'', ''swift'', ''ts'']"

text \<open>
  The attributes of a \<open>GeneralMultiPLE\<close> instance. \<open>DATASET_NAME\<close> is \<open>None\<close> in the
  class body and a string once \<open>__init__\<close> has run.
\<close>

record task =
  language :: string
  DATASET_PATH :: string
  DATASET_NAME :: "string option"
  stop_words :: "string list"
  requires_execution :: bool

text \<open>
  Modelled from the spec: the base constructor \<open>Task.__init__\<close> of \<open>lm_eval.base\<close> is not
  among the sources. The specification says of it that construction has no error
  condition, that the task is configured with the stop markers and the
  \<open>requires_execution\<close> flag it is given, and that the dataset partition named by
  \<open>DATASET_NAME\<close> is associated with the task.
\<close>

definition Task_init :: "task \<Rightarrow> string list \<Rightarrow> bool \<Rightarrow> error + task" where
  "Task_init self sw re = Inr (self\<lparr>stop_words := sw, requires_execution := re\<rparr>)"

text \<open>
  \<open>GeneralMultiPLE.__init__\<close>: the stop words are the literal list of line 87, the same
  for every language. The two attributes that only the base constructor assigns start
  out empty and false here.
\<close>

definition init_stop_words :: "string list" where
  "init_stop_words = [''\<newline>def'', ''\<newline>#'', ''\<newline>if'', ''\<newline>class'']"

definition GeneralMultiPLE_init :: "string \<Rightarrow> error + task" where
  "GeneralMultiPLE_init lang =
     (let self = \<lparr>language = lang, DATASET_PATH = ''nuprl/MultiPL-E'',
                  DATASET_NAME = Some (''humaneval-'' @ lang),
                  stop_words = [], requires_execution = False\<rparr>
      in Task_init self init_stop_words True)"

text \<open>
  \<open>create_task\<close> returns a class whose constructor takes no argument; the class is the
  function from \<open>()\<close> to the outcome of constructing an instance. \<open>create_all_tasks\<close>
  is the dictionary of these classes, in the order of \<open>LANGUAGES\<close>.
\<close>

definition create_task :: "string \<Rightarrow> unit \<Rightarrow> error + task" where
  "create_task lang = (\<lambda>_. GeneralMultiPLE_init lang)"

definition create_all_tasks :: "(string \<times> (unit \<Rightarrow> error + task)) list" where
  "create_all_tasks = map (\<lambda>lang. (''multiple-'' @ lang, create_task lang)) LANGUAGES"

subsection \<open>Splitting at stop words\<close>

text \<open>
  The pattern of \<open>remove_last_block\<close> is \<open>"(%s)" % "|".join(stop_words)\<close>: one capture
  group around an alternation of the stop words. The words are not escaped; the model
  reads each as a literal, which is what the pattern means for a non-empty list of words
  free of regular expression metacharacters, as the list of line 87 is, the only one the
  constructor stores. Outside that domain the code differs from the model: an empty list
  gives the pattern of the empty group, which matches everywhere, a metacharacter is
  read as an operator, and a word that is no pattern makes \<open>re.split\<close> raise.

  \<open>match_here ws adv s\<close> is the match of the alternation at the start of \<open>s\<close>: the first
  alternative, in the order written, that is a prefix of \<open>s\<close>. When \<open>adv\<close> is set the
  search has just produced an empty match at this position, and the engine refuses a
  second empty match there.
\<close>

fun match_here :: "string list \<Rightarrow> bool \<Rightarrow> string \<Rightarrow> string option" where
  "match_here [] adv s = None"
| "match_here (w # ws) adv s =
     (if prefix w s \<and> \<not> (adv \<and> w = []) then Some w else match_here ws adv s)"

text \<open>
  \<open>re.split\<close> with one capture group: the text before each match and the matched text
  alternate, and the text after the last match comes last, also when it is empty.
  \<open>acc\<close> holds, reversed, the text read since the last match.
\<close>

function re_split :: "string list \<Rightarrow> bool \<Rightarrow> string \<Rightarrow> string \<Rightarrow> string list" where
  "re_split ws adv acc s =
     (case match_here ws adv s of
        Some w \<Rightarrow> rev acc # w # re_split ws (w = []) [] (drop (length w) s)
      | None \<Rightarrow>
          (case s of
             [] \<Rightarrow> [rev acc]
           | c # cs \<Rightarrow> re_split ws False (c # acc) cs))"
  by pat_completeness auto

lemma match_here_Some:
  "match_here ws adv s = Some w \<Longrightarrow> w \<in> set ws \<and> prefix w s \<and> \<not> (adv \<and> w = [])"
  by (induction ws) (auto split: if_splits)

termination re_split
proof (relation "measure (\<lambda>(ws, adv, acc, s). 2 * length s + (if adv then 0 else 1))")
  show "wf (measure (\<lambda>(ws, adv, acc, s). 2 * length s + (if adv then 0 else 1)))"
    by simp
next
  fix ws :: "string list" and adv :: bool and acc s w :: string
  assume m: "match_here ws adv s = Some w"
  from match_here_Some [OF m] have p: "prefix w s" and e: "\<not> (adv \<and> w = [])"
    by simp_all
  from p have "length w \<le> length s"
    by (rule prefix_length_le)
  then have "2 * length (drop (length w) s) + (if w = [] then 0 else 1)
      < 2 * length s + (if adv then 0 else 1)"
  proof (cases "w = []")
    case True
    with e show ?thesis by simp
  next
    case False
    define n m where nm: "n = length w" "m = length s"
    from False \<open>length w \<le> length s\<close> have "0 < n" and "n \<le> m"
      by (simp_all add: nm)
    then have "2 * (m - n) + 1 < 2 * m + (if adv then 0 else 1)"
      by (cases adv) simp_all
    with False show ?thesis
      by (simp only: length_drop nm if_False)
  qed
  then show "((ws, w = [], [], drop (length w) s), (ws, adv, acc, s))
      \<in> measure (\<lambda>(ws, adv, acc, s). 2 * length s + (if adv then 0 else 1))"
    by simp
next
  fix ws :: "string list" and adv :: bool and acc s :: string and c :: char and cs :: string
  assume "s = c # cs"
  then show "((ws, False, c # acc, cs), (ws, adv, acc, s))
      \<in> measure (\<lambda>(ws, adv, acc, s). 2 * length s + (if adv then 0 else 1))"
    by simp
qed

declare re_split.simps [simp del]

text \<open>
  \<open>remove_last_block\<close>: \<open>string_list[:-2]\<close> keeps the first \<open>len - 2\<close> elements, and none
  when there are fewer than two; \<open>"".join\<close> concatenates them.
\<close>

definition remove_last_block :: "string \<Rightarrow> string list \<Rightarrow> string" where
  "remove_last_block string sw =
     (let string_list = re_split sw False [] string
      in concat (take (length string_list - 2) string_list))"

definition postprocess_generation :: "task \<Rightarrow> string \<Rightarrow> int \<Rightarrow> string" where
  "postprocess_generation self generation idx = remove_last_block generation (stop_words self)"

subsection \<open>Python objects used by \<open>process_results\<close>\<close>

text \<open>
  A dataset record is a dictionary from column names to strings; subscripting it with an
  absent key raises \<open>KeyError\<close>.
\<close>

type_synonym doc = "string \<rightharpoonup> string"

definition dict_getitem :: "doc \<Rightarrow> string \<Rightarrow> error + string" where
  "dict_getitem d k = (case d k of None \<Rightarrow> Inl KeyError | Some v \<Rightarrow> Inr v)"

text \<open>
  Subscripting a sequence: an integer index counts from the end when negative and raises
  \<open>IndexError\<close> out of range.
\<close>

definition list_getitem :: "'a list \<Rightarrow> int \<Rightarrow> error + 'a" where
  "list_getitem xs i =
     (if 0 \<le> i \<and> i < int (length xs) then Inr (xs ! nat i)
      else if - int (length xs) \<le> i \<and> i < 0 then Inr (xs ! nat (i + int (length xs)))
      else Inl IndexError)"

text \<open>
  The elements of \<open>prompts_names\<close> are pairs \<open>(doc["prompt"], doc["name"])\<close>. A tuple
  accepts integer subscripts only: a string subscript raises \<open>TypeError\<close>.
\<close>

datatype subscript = IntKey int | StrKey string

fun tuple_getitem :: "string \<times> string \<Rightarrow> subscript \<Rightarrow> error + string" where
  "tuple_getitem (a, b) (IntKey i) = list_getitem [a, b] i"
| "tuple_getitem (a, b) (StrKey k) = Inl TypeError"

text \<open>
  What the global name \<open>time\<close> can be bound to: the module (after \<open>import time\<close>) or the
  built-in function of that module (after \<open>from time import time\<close>, which is line 16).
  The expression \<open>time.time()\<close> looks the attribute \<open>time\<close> up on that object; the module
  has it, the built-in function has not. The clock value is only printed, so the call
  returns nothing here.
\<close>

datatype pyobject = Module_time | Builtin_function_time

definition time :: pyobject where
  "time = Builtin_function_time"

fun call_attr_time :: "pyobject \<Rightarrow> error + unit" where
  "call_attr_time Module_time = Inr ()"
| "call_attr_time Builtin_function_time = Inl AttributeError"

text \<open>JSON values, as \<open>json.dump\<close> writes them and the evaluator reads them.\<close>

datatype json = JStr string | JArr "json list" | JObj "(string \<times> json) list"

text \<open>
  The file system is an association list from path to content. \<open>calls\<close> logs the
  argument triples of the calls of \<open>evaluate_problem\<close>, in order.
\<close>

record world =
  files :: "(string \<times> json) list"
  calls :: "(string \<times> string \<times> int) list"

text \<open>
  What \<open>process_results\<close> reads from its surroundings: the list \<open>self.get_dataset()\<close>
  iterates over, the values of \<open>tempfile.gettempdir()\<close> and \<open>cpu_count()\<close>, and the two
  functions of the evaluation library, which are not part of this file: the effect of
  \<open>evaluate_problem(output_dir, file, max_workers)\<close> on the file system, and the vector
  \<open>for_file(p)\<close> that the estimator computes from the file at \<open>p\<close>. The components of
  that vector are modelled as exact rationals, not as 64-bit floats.
\<close>

record env =
  dataset :: "doc list"
  tempdir :: string
  cpu_count :: int
  evaluate_problem :: "string \<Rightarrow> string \<Rightarrow> int \<Rightarrow> (string \<times> json) list \<Rightarrow> (string \<times> json) list"
  for_file :: "(string \<times> json) list \<Rightarrow> string \<Rightarrow> rat \<times> rat \<times> rat"

subsection \<open>Paths\<close>

text \<open>\<open>os.path.join\<close> of two POSIX paths.\<close>

definition dir_prefix :: "string \<Rightarrow> string" where
  "dir_prefix a = (if a = [] \<or> last a = CHR ''/'' then a else a @ ''/'')"

definition path_join :: "string \<Rightarrow> string \<Rightarrow> string" where
  "path_join a b = (if prefix ''/'' b then b else dir_prefix a @ b)"

text \<open>
  \<open>Path(temp_dir).glob("*.results.json")\<close>: the entries directly in \<open>temp_dir\<close> whose
  name ends in \<open>.results.json\<close>. The pattern has no \<open>**\<close>, so entries of subdirectories
  are not visited. The file system of the model holds files only and lists them in one
  fixed order; the glob of the code also yields a directory of such a name, in the order
  of the operating system.
\<close>

definition glob_results :: "string \<Rightarrow> (string \<times> json) list \<Rightarrow> string list" where
  "glob_results temp_dir fs =
     filter (\<lambda>p. prefix (dir_prefix temp_dir) p \<and>
                 (let name = drop (length (dir_prefix temp_dir)) p
                  in CHR ''/'' \<notin> set name \<and> suffix ''.results.json'' name))
       (map fst fs)"

text \<open>\<open>str.split("/")\<close>: the pieces between the separators, at least one.\<close>

fun split_slash :: "string \<Rightarrow> string \<Rightarrow> string list" where
  "split_slash acc [] = [rev acc]"
| "split_slash acc (c # cs) =
     (if c = CHR ''/'' then rev acc # split_slash [] cs else split_slash (c # acc) cs)"

subsection \<open>\<open>process_results\<close>\<close>

text \<open>
  Lines 131 to 135: the comprehension walks the whole dataset with its index and reads
  the two columns of the records whose index is below \<open>len(generations)\<close>.
\<close>

fun prompts_names :: "doc list \<Rightarrow> nat \<Rightarrow> nat \<Rightarrow> error + (string \<times> string) list" where
  "prompts_names [] i n = Inr []"
| "prompts_names (d # ds) i n =
     (if i < n then
        (case dict_getitem d ''prompt'' of Inl e \<Rightarrow> Inl e | Inr p \<Rightarrow>
         case dict_getitem d ''name'' of Inl e \<Rightarrow> Inl e | Inr nm \<Rightarrow>
         case prompts_names ds (Suc i) n of Inl e \<Rightarrow> Inl e | Inr r \<Rightarrow> Inr ((p, nm) # r))
      else prompts_names ds (Suc i) n)"

text \<open>
  Lines 139 to 156, the loop over \<open>zip(prompts_names, generations, references)\<close>. The
  dictionary display evaluates its values in order, \<open>prompt_name["name"]\<close> first; the
  file name subscripts the tuple once more. The file is written with the problem as its
  JSON content.
\<close>

fun write_problems ::
  "task \<Rightarrow> string \<Rightarrow> ((string \<times> string) \<times> string list \<times> string) list \<Rightarrow>
   world \<times> string list \<Rightarrow> error + world \<times> string list" where
  "write_problems self temp_dir [] (st, list_files) = Inr (st, list_files)"
| "write_problems self temp_dir ((prompt_name, generation, reference) # rest) (st, list_files) =
     (case tuple_getitem prompt_name (StrKey ''name'') of Inl e \<Rightarrow> Inl e | Inr nm \<Rightarrow>
      case tuple_getitem prompt_name (StrKey ''prompt'') of Inl e \<Rightarrow> Inl e | Inr pr \<Rightarrow>
      let problem = JObj [(''name'', JStr nm), (''language'', JStr (language self)),
                          (''prompt'', JStr pr), (''completions'', JArr (map JStr generation)),
                          (''tests'', JStr reference)]
      in case tuple_getitem prompt_name (StrKey ''name'') of Inl e \<Rightarrow> Inl e | Inr nm' \<Rightarrow>
      let temp_file_name = path_join temp_dir (nm' @ ''.json'')
      in write_problems self temp_dir rest
           (st\<lparr>files := AList.update temp_file_name problem (files st)\<rparr>,
            list_files @ [temp_file_name]))"

text \<open>Line 161, with \<open>c\<close> the value of \<open>cpu_count()\<close>.\<close>

definition max_workers :: "int \<Rightarrow> int" where
  "max_workers c = (if c > 1 then c - 1 else 1)"

text \<open>Lines 163 to 165: one call of the evaluator for each file, in order.\<close>

fun evaluate_all :: "env \<Rightarrow> string \<Rightarrow> int \<Rightarrow> string list \<Rightarrow> world \<Rightarrow> world" where
  "evaluate_all ev output_dir mw [] st = st"
| "evaluate_all ev output_dir mw (file # rest) st =
     evaluate_all ev output_dir mw rest
       (st\<lparr>files := evaluate_problem ev output_dir file mw (files st),
           calls := calls st @ [(output_dir, file, mw)]\<rparr>)"

text \<open>
  \<open>np.array(rows).mean(axis=0)\<close>: the vector of the column means when there is a row.
  Of an empty array the mean is the scalar \<open>nan\<close>, written \<open>None\<close> here, and subscripting
  that scalar raises \<open>IndexError\<close>. The means are exact rationals: the rounding of the
  64-bit floats of the code, and a \<open>nan\<close> component of a row, are not modelled.
\<close>

definition mean_axis0 :: "(rat \<times> rat \<times> rat) list \<Rightarrow> (rat \<times> rat \<times> rat) option" where
  "mean_axis0 rows =
     (if rows = [] then None
      else Some (sum_list (map fst rows) / of_nat (length rows),
                 sum_list (map (fst \<circ> snd) rows) / of_nat (length rows),
                 sum_list (map (snd \<circ> snd) rows) / of_nat (length rows)))"

text \<open>
  The decimal numeral of a natural number, for the keys of the result: the text
  \<open>pass@\<close> followed by the numeral of \<open>k\<close>.
\<close>

fun str_nat :: "nat \<Rightarrow> string" where
  "str_nat n =
     (if n < 10 then [char_of (n + 48)] else str_nat (n div 10) @ [char_of (n mod 10 + 48)])"

declare str_nat.simps [simp del]

text \<open>
  Lines 175 to 179: the label printed with the scores, the last component of the
  temporary directory, or the one before it when the path ends in a slash.
\<close>

definition label :: "string \<Rightarrow> error + string" where
  "label temp_dir =
     (let parts = split_slash [] temp_dir
      in case list_getitem parts (- 1) of Inl e \<Rightarrow> Inl e | Inr l \<Rightarrow>
         if l \<noteq> [] then Inr l else list_getitem parts (- 2))"

text \<open>
  Lines 171 to 186: the scores of every file the glob finds, their mean, the label, the
  three printed lines (which subscript the mean) and the dictionary that is returned.
\<close>

definition compute_pass_at_k :: "env \<Rightarrow> (string \<times> json) list \<Rightarrow> error + (string \<times> rat) list" where
  "compute_pass_at_k ev fs =
     (let result_array = map (for_file ev fs) (glob_results (tempdir ev) fs);
          result = mean_axis0 result_array
      in case label (tempdir ev) of Inl e \<Rightarrow> Inl e | Inr name \<Rightarrow>
         (case result of
            None \<Rightarrow> Inl IndexError
          | Some (v1, v10, v100) \<Rightarrow>
              Inr (zip (map (\<lambda>k. ''pass@'' @ str_nat k) [1, 10, 100]) [v1, v10, v100])))"

text \<open>
  The whole method; it returns the final state of the world with the scores. The
  \<open>print\<close> calls are left out: they write to the log only, and the subscripts in
  their arguments are modelled where they can raise.
\<close>

definition process_results ::
  "task \<Rightarrow> env \<Rightarrow> world \<Rightarrow> string list list \<Rightarrow> string list \<Rightarrow>
   error + world \<times> (string \<times> rat) list" where
  "process_results self ev st generations references =
     (case prompts_names (dataset ev) 0 (length generations) of Inl e \<Rightarrow> Inl e | Inr pns \<Rightarrow>
      let temp_dir = tempdir ev
      in case write_problems self temp_dir (zip pns (zip generations references)) (st, [])
         of Inl e \<Rightarrow> Inl e | Inr (st1, list_files) \<Rightarrow>
      let output_dir = path_join temp_dir ''results/'';
          mw = max_workers (cpu_count ev)
      in case call_attr_time time of Inl e \<Rightarrow> Inl e | Inr start_t \<Rightarrow>
      let st2 = evaluate_all ev output_dir mw list_files st1
      in case call_attr_time time of Inl e \<Rightarrow> Inl e | Inr end_t \<Rightarrow>
         case compute_pass_at_k ev (files st2) of Inl e \<Rightarrow> Inl e
         | Inr results \<Rightarrow> Inr (st2, results))"

subsection \<open>Occurrences of stop words\<close>

text \<open>
  A stop word occurs in \<open>s\<close> when \<open>s\<close> is some text, the word, and some more text.
\<close>

definition contains_stop_word :: "string list \<Rightarrow> string \<Rightarrow> bool" where
  "contains_stop_word sw s = (\<exists>w \<in> set sw. sublist w s)"

text \<open>
  The reading of the specification, for comparison with \<open>remove_last_block\<close>: the part
  of \<open>s\<close> before the first position at which a stop word starts.
\<close>

fun before_first_stop :: "string list \<Rightarrow> string \<Rightarrow> string" where
  "before_first_stop sw [] = []"
| "before_first_stop sw (c # cs) =
     (if \<exists>w \<in> set sw. prefix w (c # cs) then [] else c # before_first_stop sw cs)"

section \<open>Properties\<close>

subsection \<open>The shape of the split\<close>

lemma match_here_None:
  "match_here ws adv s = None \<Longrightarrow> w \<in> set ws \<Longrightarrow> w \<noteq> [] \<Longrightarrow> \<not> prefix w s"
  by (induction ws) (auto split: if_splits)

lemma match_here_no_prefix:
  "\<forall>w \<in> set ws. \<not> prefix w s \<Longrightarrow> match_here ws adv s = None"
  by (induction ws) auto

lemma contains_stop_word_Nil: "[] \<in> set sw \<Longrightarrow> contains_stop_word sw s"
  by (auto simp: contains_stop_word_def)

lemma contains_stop_word_Cons:
  "contains_stop_word sw (c # cs) \<longleftrightarrow> (\<exists>w \<in> set sw. prefix w (c # cs)) \<or> contains_stop_word sw cs"
  by (auto simp: contains_stop_word_def sublist_Cons_right)

lemma contains_stop_word_empty: "contains_stop_word sw [] \<longleftrightarrow> [] \<in> set sw"
  by (auto simp: contains_stop_word_def)

lemma re_split_no_stop_word:
  "\<not> contains_stop_word sw s \<Longrightarrow> re_split sw adv acc s = [rev acc @ s]"
proof (induction s arbitrary: adv acc)
  case Nil
  then have "match_here sw adv [] = None"
    by (intro match_here_no_prefix) (auto simp: contains_stop_word_empty)
  then show ?case
    by (simp add: re_split.simps)
next
  case (Cons c cs)
  from Cons.prems have np: "\<forall>w \<in> set sw. \<not> prefix w (c # cs)" and nc: "\<not> contains_stop_word sw cs"
    by (simp_all add: contains_stop_word_Cons)
  from np have "match_here sw adv (c # cs) = None"
    by (rule match_here_no_prefix)
  then have "re_split sw adv acc (c # cs) = re_split sw False (c # acc) cs"
    by (simp add: re_split.simps)
  with Cons.IH [OF nc] show ?case
    by simp
qed

lemma re_split_shape:
  assumes "[] \<notin> set sw" and "contains_stop_word sw s"
  shows "\<exists>pre w r. re_split sw adv acc s = pre @ [w, r] \<and> w \<in> set sw \<and>
           \<not> contains_stop_word sw r \<and> concat pre @ w @ r = rev acc @ s"
  using assms
proof (induction sw adv acc s rule: re_split.induct)
  case (1 ws adv acc s)
  show ?case
  proof (cases "match_here ws adv s")
    case (Some w)
    from match_here_Some [OF Some] have w: "w \<in> set ws" and p: "prefix w s"
      by simp_all
    from w "1.prems"(1) have ne: "w \<noteq> []"
      by auto
    from p obtain s' where s: "s = w @ s'"
      by (auto simp: prefix_def)
    then have d: "drop (length w) s = s'"
      by simp
    have eq: "re_split ws adv acc s = rev acc # w # re_split ws False [] s'"
      using Some ne d by (subst re_split.simps) simp
    show ?thesis
    proof (cases "contains_stop_word ws s'")
      case False
      then have "re_split ws False [] s' = [s']"
        by (simp add: re_split_no_stop_word)
      with eq have "re_split ws adv acc s = [rev acc] @ [w, s']"
        by simp
      with w False s show ?thesis
        by (intro exI [of _ "[rev acc]"] exI [of _ w] exI [of _ s']) simp
    next
      case True
      with "1.IH"(2) [OF Some] "1.prems"(1) ne d
      obtain pre w' r where
        "re_split ws False [] s' = pre @ [w', r]" "w' \<in> set ws"
        "\<not> contains_stop_word ws r" "concat pre @ w' @ r = s'"
        by auto
      with eq s show ?thesis
        by (intro exI [of _ "rev acc # w # pre"] exI [of _ w'] exI [of _ r]) simp
    qed
  next
    case None
    show ?thesis
    proof (cases s)
      case Nil
      with "1.prems" show ?thesis
        by (simp add: contains_stop_word_empty)
    next
      case (Cons c cs)
      have "\<not> prefix w s" if "w \<in> set ws" for w
        using None that "1.prems"(1) by (intro match_here_None [of ws adv s]) auto
      with "1.prems"(2) Cons have c: "contains_stop_word ws cs"
        by (auto simp: contains_stop_word_Cons)
      have eq: "re_split ws adv acc s = re_split ws False (c # acc) cs"
        using None Cons by (subst re_split.simps) simp
      from "1.IH"(1) [OF None Cons "1.prems"(1) c] eq Cons show ?thesis
        by simp
    qed
  qed
qed

lemma remove_last_block_no_stop_word:
  "\<not> contains_stop_word sw s \<Longrightarrow> remove_last_block s sw = []"
  by (simp add: remove_last_block_def re_split_no_stop_word)

lemma remove_last_block_decomp:
  assumes "[] \<notin> set sw" and "contains_stop_word sw s"
  shows "\<exists>w r. w \<in> set sw \<and> \<not> contains_stop_word sw r \<and> s = remove_last_block s sw @ w @ r"
proof -
  from re_split_shape [OF assms, of False "[]"] obtain pre w r where
    "re_split sw False [] s = pre @ [w, r]" "w \<in> set sw"
    "\<not> contains_stop_word sw r" "concat pre @ w @ r = s"
    by auto
  then show ?thesis
    by (auto simp: remove_last_block_def)
qed


lemma init_stop_words_nonempty: "[] \<notin> set init_stop_words"
  by (simp add: init_stop_words_def)

lemma init_stop_words_newline:
  "w \<in> set init_stop_words \<Longrightarrow> \<exists>t. w = CHR 0x0A # t \<and> CHR 0x0A \<notin> set t"
  by (auto simp: init_stop_words_def)

lemma no_later_stop_word:
  assumes w: "w \<in> set init_stop_words" and r: "\<not> contains_stop_word init_stop_words r"
    and w': "w' \<in> set init_stop_words" and eq: "p @ w @ r = p' @ w' @ r'"
  shows "length p' \<le> length p"
proof (rule ccontr)
  assume "\<not> length p' \<le> length p"
  then have lt: "length p < length p'"
    by simp
  from init_stop_words_newline [OF w] obtain t where t: "w = CHR 0x0A # t" "CHR 0x0A \<notin> set t"
    by blast
  from init_stop_words_newline [OF w'] obtain t' where t': "w' = CHR 0x0A # t'"
    by blast
  from r w' have nr: "\<not> sublist w' r"
    by (auto simp: contains_stop_word_def)
  define q where "q = drop (length p) p'"
  from eq have "take (length p) (p @ w @ r) = take (length p) (p' @ w' @ r')"
    by simp
  with lt have "p = take (length p) p'"
    by simp
  then have pq: "p' = p @ q"
    unfolding q_def by (metis append_take_drop_id)
  with lt have qne: "q \<noteq> []"
    by auto
  from eq pq have wr: "w @ r = q @ w' @ r'"
    by simp
  from qne obtain c q' where qc: "q = c # q'"
    by (cases q) auto
  with wr t(1) have q': "t @ r = q' @ w' @ r'"
    by simp
  then have "\<exists>us. t = q' @ us \<and> us @ r = w' @ r' \<or> t @ us = q' \<and> r = us @ w' @ r'"
    by (rule append_eq_append_conv2 [THEN iffD1])
  then consider us where "t = q' @ us" "us @ r = w' @ r'"
    | us where "t @ us = q'" "r = us @ w' @ r'"
    by blast
  then show False
  proof cases
    case 1
    show False
    proof (cases us)
      case Nil
      with 1 nr show False by auto
    next
      case (Cons u us')
      with 1 t' have "u = CHR 0x0A" by simp
      with Cons 1 t(2) show False by simp
    qed
  next
    case 2
    with nr show False by auto
  qed
qed

text \<open>
  \<open>before_first_stop\<close> is the text before the first occurrence: a stop word follows
  it, and no stop word starts earlier.
\<close>

lemma before_first_stop_first:
  assumes "contains_stop_word sw s"
  shows "\<exists>w r. w \<in> set sw \<and> s = before_first_stop sw s @ w @ r \<and>
           (\<forall>p' w' r'. w' \<in> set sw \<and> s = p' @ w' @ r' \<longrightarrow>
              length (before_first_stop sw s) \<le> length p')"
  using assms
proof (induction s)
  case Nil
  then have "[] \<in> set sw"
    by (simp add: contains_stop_word_empty)
  then show ?case
    by (intro exI [of _ "[]"]) simp
next
  case (Cons c cs)
  show ?case
  proof (cases "\<exists>w \<in> set sw. prefix w (c # cs)")
    case True
    then obtain w r where w: "w \<in> set sw" and e: "c # cs = [] @ w @ r"
      by (auto simp: prefix_def)
    from True have b: "before_first_stop sw (c # cs) = []"
      by simp
    have "length ([] :: string) \<le> length p'" for p' :: string
      by simp
    with w e show ?thesis
      unfolding b by blast
  next
    case False
    with Cons.prems have "contains_stop_word sw cs"
      by (simp add: contains_stop_word_Cons)
    from Cons.IH [OF this] obtain w r where w: "w \<in> set sw"
      and cs: "cs = before_first_stop sw cs @ w @ r"
      and least: "\<And>p' w' r'. w' \<in> set sw \<Longrightarrow> cs = p' @ w' @ r' \<Longrightarrow>
        length (before_first_stop sw cs) \<le> length p'"
      by blast
    have "length (before_first_stop sw (c # cs)) \<le> length p'"
      if w': "w' \<in> set sw" and eq: "c # cs = p' @ w' @ r'" for p' w' r'
    proof (cases p')
      case Nil
      with eq have "prefix w' (c # cs)"
        by (simp add: prefix_def)
      with w' False show ?thesis
        by blast
    next
      case (Cons d p'')
      with eq have "cs = p'' @ w' @ r'"
        by simp
      from least [OF w' this] Cons False show ?thesis
        by simp
    qed
    moreover from cs False have "c # cs = before_first_stop sw (c # cs) @ w @ r"
      by simp
    ultimately show ?thesis
      using w by blast
  qed
qed

subsection \<open>Truncation at stop words\<close>

text \<open>
  C2, as the code has it. The specification says that a string containing a stop word is
  cut before the first occurrence. The function drops the last two elements of the
  split, so it cuts before the last occurrence: the result, a stop word and a rest make
  up \<open>s\<close>, and no stop word of the configured list starts at a later position of \<open>s\<close>.
\<close>

theorem remove_last_block_last_stop_word:
  assumes "contains_stop_word init_stop_words s"
  shows "\<exists>w r. w \<in> set init_stop_words \<and> s = remove_last_block s init_stop_words @ w @ r \<and>
           (\<forall>p' w' r'. w' \<in> set init_stop_words \<and> s = p' @ w' @ r' \<longrightarrow>
              length p' \<le> length (remove_last_block s init_stop_words))"
proof -
  from remove_last_block_decomp [OF init_stop_words_nonempty assms] obtain w r where
    w: "w \<in> set init_stop_words" and r: "\<not> contains_stop_word init_stop_words r"
    and s: "s = remove_last_block s init_stop_words @ w @ r"
    by blast
  have "length p' \<le> length (remove_last_block s init_stop_words)"
    if "w' \<in> set init_stop_words" and "s = p' @ w' @ r'" for p' w' r'
    using no_later_stop_word [OF w r that(1), of "remove_last_block s init_stop_words" p' r'] s that(2)
    by simp
  with w s show ?thesis
    by blast
qed

theorem remove_last_block_last_stop_word_witness:
  "contains_stop_word init_stop_words ''a\<newline>defb\<newline>defc'' \<and>
   (\<exists>w r. w \<in> set init_stop_words \<and>
      ''a\<newline>defb\<newline>defc'' = remove_last_block ''a\<newline>defb\<newline>defc'' init_stop_words @ w @ r)"
proof -
  have h: "contains_stop_word init_stop_words ''a\<newline>defb\<newline>defc''"
    by code_simp
  from remove_last_block_last_stop_word [OF h] obtain w r where
    "w \<in> set init_stop_words"
    "''a\<newline>defb\<newline>defc'' = remove_last_block ''a\<newline>defb\<newline>defc'' init_stop_words @ w @ r"
    by blast
  with h show ?thesis
    by blast
qed

text \<open>
  C2, as the specification states it, fails where a stop word occurs twice: the text
  before the first occurrence is \<open>a\<close>, and the function returns the text before the
  second one.
\<close>

theorem remove_last_block_first_stop_word_counterexample:
  "contains_stop_word init_stop_words ''a\<newline>defb\<newline>defc'' \<and>
   before_first_stop init_stop_words ''a\<newline>defb\<newline>defc'' = ''a'' \<and>
   remove_last_block ''a\<newline>defb\<newline>defc'' init_stop_words = ''a\<newline>defb'' \<and>
   remove_last_block ''a\<newline>defb\<newline>defc'' init_stop_words
     \<noteq> before_first_stop init_stop_words ''a\<newline>defb\<newline>defc''"
  by code_simp

text \<open>
  C3: a string in which no configured stop word occurs is postprocessed to the empty
  string, by \<open>remove_last_block\<close> and by \<open>postprocess_generation\<close> of every task that
  \<open>__init__\<close> constructs.
\<close>

theorem remove_last_block_without_stop_word:
  assumes "\<not> contains_stop_word init_stop_words s"
  shows "remove_last_block s init_stop_words = [] \<and>
    (\<forall>lang self. GeneralMultiPLE_init lang = Inr self \<longrightarrow> postprocess_generation self s idx = [])"
proof -
  have "stop_words self = init_stop_words" if "GeneralMultiPLE_init lang = Inr self" for lang self
    using that by (auto simp: GeneralMultiPLE_init_def Task_init_def)
  with remove_last_block_no_stop_word [OF assms] show ?thesis
    by (simp add: postprocess_generation_def)
qed

theorem remove_last_block_without_stop_word_witness:
  "\<not> contains_stop_word init_stop_words ''    return x + 1'' \<and>
   remove_last_block ''    return x + 1'' init_stop_words = [] \<and>
   postprocess_generation
     \<lparr>language = ''py'', DATASET_PATH = ''nuprl/MultiPL-E'', DATASET_NAME = Some ''humaneval-py'',
      stop_words = [''\<newline>def'', ''\<newline>#'', ''\<newline>if'', ''\<newline>class''], requires_execution = True\<rparr>
     ''    return x + 1'' 0 = []"
proof -
  have h: "\<not> contains_stop_word init_stop_words ''    return x + 1''"
    by code_simp
  have c: "GeneralMultiPLE_init ''py'' =
    Inr \<lparr>language = ''py'', DATASET_PATH = ''nuprl/MultiPL-E'', DATASET_NAME = Some ''humaneval-py'',
      stop_words = [''\<newline>def'', ''\<newline>#'', ''\<newline>if'', ''\<newline>class''], requires_execution = True\<rparr>"
    by (simp add: GeneralMultiPLE_init_def Task_init_def init_stop_words_def)
  from remove_last_block_without_stop_word [OF h, of 0] h c show ?thesis
    by blast
qed

text \<open>
  C4, as the code has it. When the output of \<open>postprocess_generation\<close> contains no stop
  word, postprocessing it again gives the empty string, so the second application
  returns the first output exactly when that output is empty.
\<close>

theorem postprocess_generation_twice:
  assumes "\<not> contains_stop_word (stop_words self) (postprocess_generation self s idx)"
  shows "postprocess_generation self (postprocess_generation self s idx) idx = [] \<and>
    (postprocess_generation self (postprocess_generation self s idx) idx
       = postprocess_generation self s idx
     \<longleftrightarrow> postprocess_generation self s idx = [])"
proof -
  from assms have "remove_last_block (postprocess_generation self s idx) (stop_words self) = []"
    by (rule remove_last_block_no_stop_word)
  then have "postprocess_generation self (postprocess_generation self s idx) idx = []"
    by (simp add: postprocess_generation_def)
  then show ?thesis
    by auto
qed

theorem postprocess_generation_twice_witness:
  "\<not> contains_stop_word (stop_words (projr (GeneralMultiPLE_init ''py'')))
        (postprocess_generation (projr (GeneralMultiPLE_init ''py'')) ''abc\<newline>def foo'' 0) \<and>
   postprocess_generation (projr (GeneralMultiPLE_init ''py''))
     (postprocess_generation (projr (GeneralMultiPLE_init ''py'')) ''abc\<newline>def foo'' 0) 0 = []"
proof -
  have h: "\<not> contains_stop_word (stop_words (projr (GeneralMultiPLE_init ''py'')))
        (postprocess_generation (projr (GeneralMultiPLE_init ''py'')) ''abc\<newline>def foo'' 0)"
    by code_simp
  from h postprocess_generation_twice [OF h] show ?thesis
    by blast
qed

text \<open>
  C4, as the specification states it, fails for the task of language \<open>py\<close> at the
  generation \<open>abc\<close>, newline, \<open>def foo\<close>: the first output is \<open>abc\<close>, which contains no
  stop word, and the second output is empty.
\<close>

theorem postprocess_generation_idempotent_counterexample:
  "GeneralMultiPLE_init ''py'' =
     Inr \<lparr>language = ''py'', DATASET_PATH = ''nuprl/MultiPL-E'', DATASET_NAME = Some ''humaneval-py'',
       stop_words = [''\<newline>def'', ''\<newline>#'', ''\<newline>if'', ''\<newline>class''], requires_execution = True\<rparr> \<and>
   postprocess_generation (projr (GeneralMultiPLE_init ''py'')) ''abc\<newline>def foo'' 0 = ''abc'' \<and>
   \<not> contains_stop_word (stop_words (projr (GeneralMultiPLE_init ''py''))) ''abc'' \<and>
   postprocess_generation (projr (GeneralMultiPLE_init ''py'')) ''abc'' 0 = [] \<and>
   postprocess_generation (projr (GeneralMultiPLE_init ''py''))
       (postprocess_generation (projr (GeneralMultiPLE_init ''py'')) ''abc\<newline>def foo'' 0) 0
     \<noteq> postprocess_generation (projr (GeneralMultiPLE_init ''py'')) ''abc\<newline>def foo'' 0"
  by code_simp

text \<open>
  C9: the index argument of \<open>postprocess_generation\<close> has no influence on its result.
\<close>

theorem postprocess_generation_index_unused:
  "postprocess_generation self g i = postprocess_generation self g j"
  by (simp add: postprocess_generation_def)

subsection \<open>\<open>process_results\<close>\<close>

lemma tuple_getitem_StrKey: "tuple_getitem pn (StrKey k) = Inl TypeError"
  by (cases pn) simp

lemma write_problems_raises:
  "zs \<noteq> [] \<Longrightarrow> write_problems self temp_dir zs acc = Inl TypeError"
proof (cases zs)
  case Nil
  then show "zs \<noteq> [] \<Longrightarrow> ?thesis" by simp
next
  case (Cons z zs')
  obtain prompt_name generation reference where z: "z = (prompt_name, generation, reference)"
    by (cases z) auto
  obtain st list_files where acc: "acc = (st, list_files)"
    by (cases acc) auto
  from Cons z acc show ?thesis
    by (simp add: tuple_getitem_StrKey)
qed

lemma call_attr_time_raises: "call_attr_time time = Inl AttributeError"
  by (simp add: time_def)

lemma process_results_TypeError:
  assumes "prompts_names (dataset ev) 0 (length generations) = Inr pns"
    and "zip pns (zip generations references) \<noteq> []"
  shows "process_results self ev st generations references = Inl TypeError"
proof -
  from assms(2)
  have "write_problems self (tempdir ev) (zip pns (zip generations references)) (st, [])
      = Inl TypeError"
    by (rule write_problems_raises)
  with assms(1) show ?thesis
    by (simp add: process_results_def)
qed

lemma process_results_AttributeError:
  assumes "prompts_names (dataset ev) 0 (length generations) = Inr pns"
    and "zip pns (zip generations references) = []"
  shows "process_results self ev st generations references = Inl AttributeError"
proof -
  from assms(2)
  have "write_problems self (tempdir ev) (zip pns (zip generations references)) (st, [])
      = Inr (st, [])"
    by (simp only: write_problems.simps)
  with assms(1) show ?thesis
    by (simp add: process_results_def call_attr_time_raises)
qed


text \<open>
  The outcome of the method is fixed by the dataset, the number of generations and the
  zipped sequence; the state of the world, the temporary directory, the number of
  processors, the evaluator and the estimator have no part in it.
\<close>

lemma process_results_outcome:
  "process_results self ev st generations references =
     (case prompts_names (dataset ev) 0 (length generations) of
        Inl e \<Rightarrow> Inl e
      | Inr pns \<Rightarrow>
          if zip pns (zip generations references) = [] then Inl AttributeError
          else Inl TypeError)"
proof (cases "prompts_names (dataset ev) 0 (length generations)")
  case (Inl e)
  then show ?thesis
    by (simp add: process_results_def)
next
  case (Inr pns)
  show ?thesis
  proof (cases "zip pns (zip generations references) = []")
    case True
    from process_results_AttributeError [OF Inr True] Inr True show ?thesis
      by simp
  next
    case False
    from process_results_TypeError [OF Inr False] Inr False show ?thesis
      by simp
  qed
qed

text \<open>
  C1: \<open>process_results\<close> never returns. Whatever the dataset, the generations and the
  references are, the outcome is an exception. When the list \<open>prompts_names\<close> has been
  built and the zipped sequence is not empty, the first round of the loop raises
  \<open>TypeError\<close>, subscripting a tuple with a string; when the zipped sequence is empty,
  \<open>time.time()\<close> raises \<open>AttributeError\<close>.
\<close>

theorem process_results_always_raises:
  "(\<exists>e. process_results self ev st generations references = Inl e) \<and>
   (\<forall>pns. prompts_names (dataset ev) 0 (length generations) = Inr pns \<longrightarrow>
      (zip pns (zip generations references) \<noteq> [] \<longrightarrow>
         process_results self ev st generations references = Inl TypeError) \<and>
      (zip pns (zip generations references) = [] \<longrightarrow>
         process_results self ev st generations references = Inl AttributeError))"
proof (cases "prompts_names (dataset ev) 0 (length generations)")
  case (Inl e)
  then show ?thesis
    by (simp add: process_results_def)
next
  case (Inr pns)
  show ?thesis
  proof (cases "zip pns (zip generations references) = []")
    case True
    from process_results_AttributeError [OF Inr True] Inr True show ?thesis
      by simp
  next
    case False
    from process_results_TypeError [OF Inr False] Inr False show ?thesis
      by simp
  qed
qed

theorem process_results_always_raises_witness:
  "process_results
     \<lparr>language = ''py'', DATASET_PATH = ''nuprl/MultiPL-E'',
        DATASET_NAME = Some ''humaneval-py'',
        stop_words = [''\<newline>def'', ''\<newline>#'', ''\<newline>if'', ''\<newline>class''],
        requires_execution = True\<rparr>
     \<lparr>dataset = [[''prompt'' \<mapsto> ''p'', ''name'' \<mapsto> ''n'', ''tests'' \<mapsto> ''t'']],
        tempdir = ''/tmp'', cpu_count = 4,
        evaluate_problem = (\<lambda>output_dir file mw fs. fs),
        for_file = (\<lambda>fs p. (1, 1, 1))\<rparr>
     \<lparr>files = [], calls = []\<rparr> [[''c'']] [''t''] = Inl TypeError \<and>
   process_results
     \<lparr>language = ''py'', DATASET_PATH = ''nuprl/MultiPL-E'',
        DATASET_NAME = Some ''humaneval-py'',
        stop_words = [''\<newline>def'', ''\<newline>#'', ''\<newline>if'', ''\<newline>class''],
        requires_execution = True\<rparr>
     \<lparr>dataset = [[''prompt'' \<mapsto> ''p'', ''name'' \<mapsto> ''n'', ''tests'' \<mapsto> ''t'']],
        tempdir = ''/tmp'', cpu_count = 4,
        evaluate_problem = (\<lambda>output_dir file mw fs. fs),
        for_file = (\<lambda>fs p. (1, 1, 1))\<rparr>
     \<lparr>files = [], calls = []\<rparr> [] [] = Inl AttributeError"
proof -
  let ?T = "\<lparr>language = ''py'', DATASET_PATH = ''nuprl/MultiPL-E'',
        DATASET_NAME = Some ''humaneval-py'',
        stop_words = [''\<newline>def'', ''\<newline>#'', ''\<newline>if'', ''\<newline>class''],
        requires_execution = True\<rparr>"
  let ?E = "\<lparr>dataset = [[''prompt'' \<mapsto> ''p'', ''name'' \<mapsto> ''n'', ''tests'' \<mapsto> ''t'']],
        tempdir = ''/tmp'', cpu_count = 4,
        evaluate_problem = (\<lambda>output_dir file mw fs. fs),
        for_file = (\<lambda>fs p. (1, 1, 1))\<rparr>"
  let ?W = "\<lparr>files = [], calls = []\<rparr>"
  have a: "prompts_names (dataset ?E) 0 (length [[''c'']]) = Inr [(''p'', ''n'')]"
    by (simp add: dict_getitem_def)
  have b: "zip [(''p'', ''n'')] (zip [[''c'']] [''t'']) \<noteq> []"
    by simp
  have c: "prompts_names (dataset ?E) 0 (length ([] :: string list list)) = Inr []"
    by simp
  have d: "zip ([] :: (string \<times> string) list) (zip ([] :: string list list) ([] :: string list)) = []"
    by simp
  from process_results_always_raises [of ?T ?E ?W "[[''c'']]" "[''t'']"] a b
  have "process_results ?T ?E ?W [[''c'']] [''t''] = Inl TypeError"
    by blast
  moreover from process_results_always_raises [of ?T ?E ?W "[]" "[]"] c d
  have "process_results ?T ?E ?W [] [] = Inl AttributeError"
    by blast
  ultimately show ?thesis
    by (rule conjI)
qed

text \<open>
  C5: one problem whose hundred identical completions all pass. The specification says
  that the three scores come back as 1.0; the method raises \<open>TypeError\<close> in the first
  round of its loop, whatever the evaluator and the estimator do.
\<close>

theorem process_results_one_problem_raises:
  "process_results self
     (ev\<lparr>dataset := [[''prompt'' \<mapsto> ''def f():'', ''name'' \<mapsto> ''HumanEval_0_f'',
                       ''tests'' \<mapsto> ''assert f() is None'']]\<rparr>)
     st [replicate 100 ''    return None''] [''assert f() is None''] = Inl TypeError"
proof -
  let ?ev = "ev\<lparr>dataset := [[''prompt'' \<mapsto> ''def f():'', ''name'' \<mapsto> ''HumanEval_0_f'',
                       ''tests'' \<mapsto> ''assert f() is None'']]\<rparr>"
  have "prompts_names (dataset ?ev) 0 (length [replicate 100 ''    return None''])
      = Inr [(''def f():'', ''HumanEval_0_f'')]"
    by (simp add: dict_getitem_def)
  moreover have "zip [(''def f():'', ''HumanEval_0_f'')]
      (zip [replicate 100 ''    return None''] [''assert f() is None'']) \<noteq> []"
    by simp
  ultimately show ?thesis
    by (rule process_results_TypeError)
qed

text \<open>
  C7: two generations, one reference, two dataset records. The specification says that
  the first triple is serialized and evaluated and the second generation dropped
  without an error; the method raises \<open>TypeError\<close> before it writes the first file. The
  loop alone, started on the aligned triples, already ends in that exception.
\<close>

theorem process_results_fewer_references_raises:
  "process_results self
     (ev\<lparr>dataset := [[''prompt'' \<mapsto> ''p0'', ''name'' \<mapsto> ''n0'', ''tests'' \<mapsto> ''t0''],
                      [''prompt'' \<mapsto> ''p1'', ''name'' \<mapsto> ''n1'', ''tests'' \<mapsto> ''t1'']]\<rparr>)
     st [[''g0''], [''g1'']] [''t0''] = Inl TypeError \<and>
   write_problems self (tempdir ev) [((''p0'', ''n0''), [''g0''], ''t0'')] (st, []) = Inl TypeError"
proof -
  let ?ev = "ev\<lparr>dataset := [[''prompt'' \<mapsto> ''p0'', ''name'' \<mapsto> ''n0'', ''tests'' \<mapsto> ''t0''],
                      [''prompt'' \<mapsto> ''p1'', ''name'' \<mapsto> ''n1'', ''tests'' \<mapsto> ''t1'']]\<rparr>"
  have "prompts_names (dataset ?ev) 0 (length [[''g0''], [''g1'']])
      = Inr [(''p0'', ''n0''), (''p1'', ''n1'')]"
    by (simp add: dict_getitem_def)
  moreover have "zip [(''p0'', ''n0''), (''p1'', ''n1'')] (zip [[''g0''], [''g1'']] [''t0'']) \<noteq> []"
    by simp
  ultimately have "process_results self ?ev st [[''g0''], [''g1'']] [''t0''] = Inl TypeError"
    by (rule process_results_TypeError)
  moreover have "write_problems self (tempdir ev) [((''p0'', ''n0''), [''g0''], ''t0'')] (st, [])
      = Inl TypeError"
    by (rule write_problems_raises) simp
  ultimately show ?thesis
    by (rule conjI)
qed

subsection \<open>The worker budget\<close>

lemma calls_evaluate_all:
  "calls (evaluate_all ev output_dir mw fs st) = calls st @ map (\<lambda>f. (output_dir, f, mw)) fs"
  by (induction fs arbitrary: st) simp_all

text \<open>
  Line 161 by itself: the number it computes is the larger of \<open>cpu_count() - 1\<close> and 1.
\<close>

lemma max_workers_max: "max_workers c = max (c - 1) 1 \<and> 1 \<le> max_workers c"
  by (simp add: max_workers_def)


subsection \<open>Aggregation\<close>

lemma split_slash_nonempty: "split_slash acc s \<noteq> []"
  by (induction s arbitrary: acc) simp_all

lemma last_split_slash:
  "last (split_slash acc s) = [] \<Longrightarrow> (acc = [] \<and> s = []) \<or> 2 \<le> length (split_slash acc s)"
proof (induction s arbitrary: acc)
  case Nil
  then show ?case by simp
next
  case (Cons c cs)
  show ?case
  proof (cases "c = CHR ''/''")
    case True
    with split_slash_nonempty [of "[]" cs] show ?thesis
      by (cases "split_slash [] cs") simp_all
  next
    case False
    with Cons.prems have "last (split_slash (c # acc) cs) = []"
      by simp
    from Cons.IH [OF this] False show ?thesis
      by simp
  qed
qed

lemma label_defined: "temp_dir \<noteq> [] \<Longrightarrow> \<exists>l. label temp_dir = Inr l"
proof -
  assume ne: "temp_dir \<noteq> []"
  define parts where "parts = split_slash [] temp_dir"
  have pos: "parts \<noteq> []"
    unfolding parts_def by (rule split_slash_nonempty)
  then have l1: "list_getitem parts (- 1) = Inr (last parts)"
    by (cases parts rule: rev_cases) (auto simp: list_getitem_def nth_append)
  show ?thesis
  proof (cases "last parts = []")
    case False
    with l1 show ?thesis
      by (simp add: label_def parts_def [symmetric])
  next
    case True
    with last_split_slash [of "[]" temp_dir] ne have "2 \<le> length parts"
      by (simp add: parts_def)
    then have "\<exists>l. list_getitem parts (- 2) = Inr l"
      by (auto simp: list_getitem_def)
    with l1 True show ?thesis
      by (auto simp: label_def parts_def [symmetric])
  qed
qed

lemma str_nat_1: "str_nat 1 = ''1''"
  by code_simp

lemma str_nat_10: "str_nat 10 = ''10''"
  by code_simp

lemma str_nat_100: "str_nat 100 = ''100''"
  by code_simp

lemma pass_keys:
  "zip (map (\<lambda>k. ''pass@'' @ str_nat k) [1, 10, 100]) [a, b, c] =
     [(''pass@1'', a), (''pass@10'', b), (''pass@100'', c)]"
  using str_nat_1 by (simp add: str_nat_10 str_nat_100)

lemma glob_results_not_output_dir:
  assumes "p \<in> set (glob_results temp_dir fs)"
  shows "\<not> prefix (path_join temp_dir ''results/'') p"
proof
  assume pre: "prefix (path_join temp_dir ''results/'') p"
  have j: "path_join temp_dir ''results/'' = dir_prefix temp_dir @ ''results/''"
    by (simp add: path_join_def)
  from assms obtain name where p: "p = dir_prefix temp_dir @ name" and n: "CHR ''/'' \<notin> set name"
    by (auto simp: glob_results_def Let_def prefix_def)
  from pre j p have "prefix ''results/'' name"
    by simp
  then have "CHR ''/'' \<in> set name"
    by (auto simp: prefix_def)
  with n show False
    by simp
qed

text \<open>
  Lines 171 to 186 by themselves, started where the glob finds a file and the temporary
  directory has a non-empty name: the dictionary has the keys \<open>pass@1\<close>, \<open>pass@10\<close>
  and \<open>pass@100\<close>, in this order; each value is the sum of that component of
  \<open>for_file\<close> over the files found, divided by their number; the files found are
  entries of the temporary directory whose name ends in \<open>.results.json\<close>, and none of
  them lies under \<open>output_dir\<close>.
\<close>

lemma compute_pass_at_k_mean:
  assumes "glob_results (tempdir ev) fs \<noteq> []" and "tempdir ev \<noteq> []"
  shows "compute_pass_at_k ev fs =
      Inr [(''pass@1'', (\<Sum>p\<leftarrow>glob_results (tempdir ev) fs. fst (for_file ev fs p))
                          / of_nat (length (glob_results (tempdir ev) fs))),
           (''pass@10'', (\<Sum>p\<leftarrow>glob_results (tempdir ev) fs. fst (snd (for_file ev fs p)))
                          / of_nat (length (glob_results (tempdir ev) fs))),
           (''pass@100'', (\<Sum>p\<leftarrow>glob_results (tempdir ev) fs. snd (snd (for_file ev fs p)))
                          / of_nat (length (glob_results (tempdir ev) fs)))] \<and>
    (\<forall>p \<in> set (glob_results (tempdir ev) fs).
       p \<in> fst ` set fs \<and> suffix ''.results.json'' p \<and>
       \<not> prefix (path_join (tempdir ev) ''results/'') p)"
proof -
  from label_defined [OF assms(2)] obtain l where l: "label (tempdir ev) = Inr l"
    by blast
  from assms(1) have m: "mean_axis0 (map (for_file ev fs) (glob_results (tempdir ev) fs)) =
      Some ((\<Sum>p\<leftarrow>glob_results (tempdir ev) fs. fst (for_file ev fs p))
              / of_nat (length (glob_results (tempdir ev) fs)),
            (\<Sum>p\<leftarrow>glob_results (tempdir ev) fs. fst (snd (for_file ev fs p)))
              / of_nat (length (glob_results (tempdir ev) fs)),
            (\<Sum>p\<leftarrow>glob_results (tempdir ev) fs. snd (snd (for_file ev fs p)))
              / of_nat (length (glob_results (tempdir ev) fs)))"
    by (simp add: mean_axis0_def comp_def)
  have "compute_pass_at_k ev fs =
      Inr [(''pass@1'', (\<Sum>p\<leftarrow>glob_results (tempdir ev) fs. fst (for_file ev fs p))
                          / of_nat (length (glob_results (tempdir ev) fs))),
           (''pass@10'', (\<Sum>p\<leftarrow>glob_results (tempdir ev) fs. fst (snd (for_file ev fs p)))
                          / of_nat (length (glob_results (tempdir ev) fs))),
           (''pass@100'', (\<Sum>p\<leftarrow>glob_results (tempdir ev) fs. snd (snd (for_file ev fs p)))
                          / of_nat (length (glob_results (tempdir ev) fs)))]"
    unfolding compute_pass_at_k_def Let_def
    by (simp only: l m sum.case option.case prod.case pass_keys)
  moreover have "p \<in> fst ` set fs \<and> suffix ''.results.json'' p"
    if "p \<in> set (glob_results (tempdir ev) fs)" for p
    using that by (auto simp: glob_results_def Let_def suffix_def prefix_def)
  ultimately show ?thesis
    using glob_results_not_output_dir by blast
qed

text \<open>
  C6: the specification says that \<open>process_results\<close> globs the temporary directory,
  averages the vectors of \<open>for_file\<close> and returns the dictionary of the three means.
  The method does not get that far. With two result files in the temporary directory and
  one problem it raises \<open>TypeError\<close>; no input makes it return a dictionary; and its
  outcome is the same whatever the files in the temporary directory and whatever the
  estimator are, since lines 171 to 186 are never reached.
\<close>

theorem process_results_never_aggregates:
  "process_results self
     (ev\<lparr>dataset := [[''prompt'' \<mapsto> ''p'', ''name'' \<mapsto> ''n'', ''tests'' \<mapsto> ''t'']],
         tempdir := ''/tmp''\<rparr>)
     (st\<lparr>files := [(''/tmp/a.results.json'', JStr ''a''), (''/tmp/c.results.json'', JStr ''c'')]\<rparr>)
     [[''g'']] [''t''] = Inl TypeError \<and>
   process_results self ev st generations references \<noteq> Inr (st', results) \<and>
   process_results self (ev\<lparr>for_file := f\<rparr>) (st\<lparr>files := fs\<rparr>) generations references
     = process_results self ev st generations references"
  by (simp add: process_results_outcome dict_getitem_def split: sum.split)

subsection \<open>Task construction\<close>

text \<open>
  C10: there are nineteen language codes, and for each of them constructing the task
  succeeds and gives a task with the four stop words of line 87, with
  \<open>requires_execution\<close> set and with \<open>humaneval-\<close> followed by the code as its dataset
  name.
\<close>

theorem create_task_configured:
  "length LANGUAGES = 19 \<and> distinct LANGUAGES \<and>
   (\<forall>lang \<in> set LANGUAGES. \<exists>self.
      create_task lang () = Inr self \<and>
      stop_words self = [''\<newline>def'', ''\<newline>#'', ''\<newline>if'', ''\<newline>class''] \<and>
      requires_execution self \<and>
      DATASET_NAME self = Some (''humaneval-'' @ lang))"
  by (simp add: LANGUAGES_def create_task_def GeneralMultiPLE_init_def Task_init_def
      init_stop_words_def)

theorem create_task_configured_witness:
  "''py'' \<in> set LANGUAGES \<and>
   (\<exists>self. create_task ''py'' () = Inr self \<and>
      stop_words self = [''\<newline>def'', ''\<newline>#'', ''\<newline>if'', ''\<newline>class''] \<and>
      requires_execution self \<and> DATASET_NAME self = Some ''humaneval-py'')"
proof -
  have h: "''py'' \<in> set LANGUAGES"
    by (simp add: LANGUAGES_def)
  with create_task_configured
  have "\<exists>self. create_task ''py'' () = Inr self \<and>
      stop_words self = [''\<newline>def'', ''\<newline>#'', ''\<newline>if'', ''\<newline>class''] \<and>
      requires_execution self \<and> DATASET_NAME self = Some (''humaneval-'' @ ''py'')"
    by blast
  with h show ?thesis
    by simp
qed

end
